theory Spec2Isabelle
  imports Main
begin

section \<open>Paths as the source builds them\<close>

text \<open>
  The dataset builds every path with \<^verbatim>\<open>pathlib.Path\<close>: \<^verbatim>\<open>Path(s)\<close>, the operator
  \<^verbatim>\<open>/\<close>, \<^verbatim>\<open>str\<close>, \<^verbatim>\<open>.suffix\<close> and \<^verbatim>\<open>.parent\<close>.
  The model is the POSIX flavour: a path is its root (\<^verbatim>\<open>""\<close>, \<^verbatim>\<open>"/"\<close> or
  \<^verbatim>\<open>"//"\<close>) and the list of its name segments; the drive is always empty there.
\<close>

record Path =
  root :: string
  names :: "string list"

text \<open>\<^verbatim>\<open>s.split(sep)\<close> of Python: the pieces between the separators, empty pieces kept.\<close>

fun split_sep :: "char \<Rightarrow> string \<Rightarrow> string list" where
  "split_sep c [] = [[]]"
| "split_sep c (x # xs) =
     (if x = c then [] # split_sep c xs
      else (case split_sep c xs of
              [] \<Rightarrow> [[x]]
            | p # ps \<Rightarrow> (x # p) # ps))"

text \<open>
  \<^verbatim>\<open>splitroot\<close>: exactly two leading slashes are kept as the root \<^verbatim>\<open>"//"\<close>, any other
  number of leading slashes is the root \<^verbatim>\<open>"/"\<close>; the rest has the leading slashes stripped.
\<close>

definition splitroot :: "string \<Rightarrow> string \<times> string" where
  "splitroot part =
     (if part \<noteq> [] \<and> hd part = CHR ''/'' then
        (let stripped_part = dropWhile (\<lambda>c. c = CHR ''/'') part
         in if length part - length stripped_part = 2 then (''//'', stripped_part)
            else (''/'', stripped_part))
      else ('''', part))"

text \<open>\<^verbatim>\<open>Path(s)\<close>: the segments that are empty or \<^verbatim>\<open>"."\<close> are dropped.\<close>

definition mkPath :: "string \<Rightarrow> Path" where
  "mkPath s =
     (case splitroot s of
        (r, rel) \<Rightarrow> \<lparr>root = r, names = filter (\<lambda>x. x \<noteq> [] \<and> x \<noteq> ''.'') (split_sep CHR ''/'' rel)\<rparr>)"

text \<open>\<^verbatim>\<open>p / q\<close>: a right operand with a root replaces the left one.\<close>

definition joinpath :: "Path \<Rightarrow> Path \<Rightarrow> Path" where
  "joinpath p q = (if root q \<noteq> [] then q else \<lparr>root = root p, names = names p @ names q\<rparr>)"

fun join_sep :: "string list \<Rightarrow> string" where
  "join_sep [] = []"
| "join_sep [x] = x"
| "join_sep (x # y # ys) = x @ ''/'' @ join_sep (y # ys)"

text \<open>\<^verbatim>\<open>str(p)\<close>: the empty relative path prints as \<^verbatim>\<open>"."\<close>.\<close>

definition str :: "Path \<Rightarrow> string" where
  "str p = (if root p = [] \<and> names p = [] then ''.'' else root p @ join_sep (names p))"

text \<open>\<^verbatim>\<open>p.name\<close>: the last segment, or the empty string when there is none.\<close>

definition name :: "Path \<Rightarrow> string" where
  "name p = (if names p = [] then [] else last (names p))"

text \<open>\<^verbatim>\<open>s.rfind(c)\<close>: the index of the last occurrence, or \<open>-1\<close>.\<close>

definition rfind :: "char \<Rightarrow> string \<Rightarrow> int" where
  "rfind c s =
     (if c \<in> set s then int (length s) - 1 - int (length (takeWhile (\<lambda>x. x \<noteq> c) (rev s)))
      else - 1)"

text \<open>
  \<^verbatim>\<open>p.suffix\<close>: from the last dot of the name on, unless that dot is the first or the
  last character of the name.
\<close>

definition suffix :: "Path \<Rightarrow> string" where
  "suffix p =
     (let n = name p; i = rfind CHR ''.'' n
      in if 0 < i \<and> i < int (length n) - 1 then drop (nat i) n else [])"

text \<open>\<^verbatim>\<open>p.parent\<close>: the last segment dropped; a path without segments is its own parent.\<close>

definition parent :: "Path \<Rightarrow> Path" where
  "parent p = (if names p = [] then p else p\<lparr>names := butlast (names p)\<rparr>)"

section \<open>The dataset, the remote store and the errors\<close>

text \<open>
  The exceptions the class raises or lets through. \<open>ResourceNotFoundError\<close> is the
  remote client's own "not found"; \<open>KeyError\<close> and \<open>UnboundLocalError\<close> are the
  interpreter's, for a missing dictionary key and for a local variable read before any
  assignment.
\<close>

datatype error =
    DataSetError
  | DataSetNotFoundError
  | VersionNotFoundError
  | ResourceNotFoundError
  | KeyError
  | UnboundLocalError

text \<open>
  The fields \<^verbatim>\<open>__init__\<close> sets. The inner configuration is the dictionary the base
  class keeps in \<^verbatim>\<open>_dataset_config\<close>; its values are strings here, the entry under
  \<^verbatim>\<open>_filepath_arg\<close> being the only one the class reads. The version is the optional
  explicit version string. The cache holds what \<^verbatim>\<open>cachedmethod\<close> stored, by key: the
  class uses the one key \<^verbatim>\<open>"load"\<close>, so the capacity of two entries is never reached
  and nothing is ever evicted. The field \<^verbatim>\<open>_azureml_config\<close> only tells the client
  which workspace to connect to; the remote store stands for the workspace reached, and
  the field is left out.
\<close>

record dataset =
  azureml_dataset :: string
  dataset_config :: "string \<rightharpoonup> string"
  version :: "string option"
  folder :: string
  filepath_arg :: string
  version_cache :: "string \<rightharpoonup> string"
  download :: bool
  local_run :: bool

text \<open>What \<^verbatim>\<open>ml_client.data.get\<close> returns: the type and the storage URI of a data asset.\<close>

record data_asset =
  asset_type :: string
  asset_path :: string

text \<open>
  The remote store, as the class consumes it. \<open>None\<close> stands for the client's
  \<open>ResourceNotFoundError\<close>.
  \<^item> \<open>data_get_latest n\<close>: \<^verbatim>\<open>ml_client.data.get(n, label="latest").version\<close>;
  \<^item> \<open>data_get n v\<close>: \<^verbatim>\<open>ml_client.data.get(n, version=v)\<close>;
  \<^item> \<open>infer_storage_options u\<close>: \<^verbatim>\<open>fs._infer_storage_options(u)[-1]\<close>, the path of the
    asset relative to the storage account root;
  \<^item> \<open>fs_ls u p\<close>: \<^verbatim>\<open>fs.ls(p)\<close> on the file system opened on the URI \<open>u\<close>.
\<close>

record remote =
  data_get_latest :: "string \<Rightarrow> string option"
  data_get :: "string \<Rightarrow> string \<Rightarrow> data_asset option"
  infer_storage_options :: "string \<Rightarrow> string"
  fs_ls :: "string \<Rightarrow> string \<Rightarrow> string list"

text \<open>Every call that reaches the remote store is recorded, in order.\<close>

datatype remote_call =
    GetLatest string
  | GetAsset string string
  | OpenFs string
  | Ls string
  | Download string string string

text \<open>
  The state the operations thread: the dataset instance (its cache is mutable), the
  record of remote calls, the files present locally, as pairs of destination directory
  and remote object path, and the record of the transfers really made.
\<close>

record world =
  ds :: dataset
  calls :: "remote_call list"
  local_files :: "(string \<times> string) list"
  transfers :: "(string \<times> string) list"

section \<open>Construction\<close>

text \<open>
  \<^verbatim>\<open>__init__\<close>, after the base class has stored the inner configuration. \<open>VERSION_KEY\<close>
  is the framework's constant of that name, a parameter here. The constructor has no
  remote store to call: it only sets fields and checks the configuration.
\<close>

definition init :: "string \<Rightarrow> string \<Rightarrow> (string \<rightharpoonup> string) \<Rightarrow> string option \<Rightarrow> string \<Rightarrow> string
    \<Rightarrow> error + dataset" where
  "init VERSION_KEY azureml_dataset' dataset' version' folder' filepath_arg' =
     (let self = \<lparr>azureml_dataset = azureml_dataset',
                  dataset_config = dataset',
                  version = version',
                  folder = folder',
                  filepath_arg = filepath_arg',
                  version_cache = Map.empty,
                  download = False,
                  local_run = False\<rparr>
      in if VERSION_KEY \<in> dom (dataset_config self) then Inl DataSetError else Inr self)"

section \<open>Version resolution\<close>

text \<open>
  \<^verbatim>\<open>_get_latest_version\<close>: one remote lookup of the version labelled latest; the
  client's not-found error becomes \<open>DataSetNotFoundError\<close>.
\<close>

definition get_latest_version :: "remote \<Rightarrow> world \<Rightarrow> (error + string) \<times> world" where
  "get_latest_version rm w =
     (let w' = w\<lparr>calls := calls w @ [GetLatest (azureml_dataset (ds w))]\<rparr>
      in case data_get_latest rm (azureml_dataset (ds w)) of
           None \<Rightarrow> (Inl DataSetNotFoundError, w')
         | Some v \<Rightarrow> (Inr v, w'))"

text \<open>
  \<^verbatim>\<open>_fetch_latest_load_version\<close> under \<^verbatim>\<open>cachedmethod\<close> with the key \<^verbatim>\<open>"load"\<close>: a
  cached value is returned without running the method; otherwise the method runs and its
  value is stored. An exception leaves the cache as it was.
\<close>

definition fetch_latest_load_version :: "remote \<Rightarrow> world \<Rightarrow> (error + string) \<times> world" where
  "fetch_latest_load_version rm w =
     (case version_cache (ds w) ''load'' of
        Some v \<Rightarrow> (Inr v, w)
      | None \<Rightarrow>
          (case get_latest_version rm w of
             (Inl e, w') \<Rightarrow> (Inl e, w')
           | (Inr v, w') \<Rightarrow>
               (Inr v, w'\<lparr>ds := (ds w')\<lparr>version_cache := (version_cache (ds w'))(''load'' \<mapsto> v)\<rparr>\<rparr>)))"

text \<open>
  Modelled from the spec: \<^verbatim>\<open>resolve_load_version\<close> is inherited from the framework's
  versioned-dataset base class, which is not among the sources. The spec: "If an explicit
  version was supplied at construction, return it unchanged (no remote call, no caching
  needed). Otherwise, query the remote store for the latest labeled version of the named
  asset and cache the result under the load cache slot."
\<close>

definition resolve_load_version :: "remote \<Rightarrow> world \<Rightarrow> (error + string) \<times> world" where
  "resolve_load_version rm w =
     (case version (ds w) of
        Some v \<Rightarrow> (Inr v, w)
      | None \<Rightarrow> fetch_latest_load_version rm w)"

section \<open>The local path and the download target\<close>

text \<open>
  The property \<^verbatim>\<open>path\<close>. In a local run the version is resolved before the inner
  configuration is read, as the operands of \<^verbatim>\<open>/\<close> are evaluated from left to right.
\<close>

definition path :: "remote \<Rightarrow> world \<Rightarrow> (error + Path) \<times> world" where
  "path rm w =
     (if local_run (ds w) then
        (case resolve_load_version rm w of
           (Inl e, w') \<Rightarrow> (Inl e, w')
         | (Inr v, w') \<Rightarrow>
             (case dataset_config (ds w') (filepath_arg (ds w')) of
                None \<Rightarrow> (Inl KeyError, w')
              | Some fp \<Rightarrow>
                  (Inr (joinpath (joinpath (joinpath (mkPath (folder (ds w')))
                                                       (mkPath (azureml_dataset (ds w'))))
                                            (mkPath v))
                                 (mkPath fp)), w')))
      else
        (case dataset_config (ds w) (filepath_arg (ds w)) of
           None \<Rightarrow> (Inl KeyError, w)
         | Some fp \<Rightarrow> (Inr (joinpath (mkPath (folder (ds w))) (mkPath fp)), w)))"

text \<open>
  The property \<^verbatim>\<open>download_path\<close>. The source reads \<^verbatim>\<open>self.path\<close> twice, once for the
  test and once for the result.
\<close>

definition download_path :: "remote \<Rightarrow> world \<Rightarrow> (error + string) \<times> world" where
  "download_path rm w =
     (case path rm w of
        (Inl e, w1) \<Rightarrow> (Inl e, w1)
      | (Inr p, w1) \<Rightarrow>
          (if suffix p \<noteq> [] then
             (case path rm w1 of
                (Inl e, w2) \<Rightarrow> (Inl e, w2)
              | (Inr p', w2) \<Rightarrow> (Inr (str (parent p')), w2))
           else
             (case path rm w1 of
                (Inl e, w2) \<Rightarrow> (Inl e, w2)
              | (Inr p', w2) \<Rightarrow> (Inr (str p'), w2))))"

text \<open>
  \<^verbatim>\<open>_construct_dataset\<close>: a copy of the inner configuration with the computed path
  under \<^verbatim>\<open>_filepath_arg\<close>; the result is the configuration the inner dataset is built with.
\<close>

definition construct_dataset :: "remote \<Rightarrow> world \<Rightarrow> (error + (string \<rightharpoonup> string)) \<times> world" where
  "construct_dataset rm w =
     (case path rm w of
        (Inl e, w') \<Rightarrow> (Inl e, w')
      | (Inr p, w') \<Rightarrow> (Inr ((dataset_config (ds w'))(filepath_arg (ds w') \<mapsto> str p)), w'))"

section \<open>Loading\<close>

text \<open>
  \<^verbatim>\<open>_get_azureml_dataset\<close>: the version is resolved as an argument of the call, then
  the asset is looked up by name and version.
\<close>

definition get_azureml_dataset :: "remote \<Rightarrow> world \<Rightarrow> (error + data_asset) \<times> world" where
  "get_azureml_dataset rm w =
     (case resolve_load_version rm w of
        (Inl e, w') \<Rightarrow> (Inl e, w')
      | (Inr v, w') \<Rightarrow>
          (let w'' = w'\<lparr>calls := calls w' @ [GetAsset (azureml_dataset (ds w')) v]\<rparr>
           in case data_get rm (azureml_dataset (ds w')) v of
                None \<Rightarrow> (Inl ResourceNotFoundError, w'')
              | Some a \<Rightarrow> (Inr a, w'')))"

text \<open>
  Modelled from the spec: \<^verbatim>\<open>fs.download\<close> belongs to the remote client, which is not
  among the sources. The spec: "Download must be additive/non-destructive: if a file
  already exists locally, skip re-fetching it", which is the mode \<^verbatim>\<open>"APPEND"\<close> ("using
  APPEND will keep the local file if exists", says the source). Any other mode transfers.
\<close>

definition fs_download :: "string \<Rightarrow> string \<Rightarrow> string \<Rightarrow> world \<Rightarrow> world" where
  "fs_download fpath dest mode w =
     (let w' = w\<lparr>calls := calls w @ [Download fpath dest mode]\<rparr>
      in if mode = ''APPEND'' \<and> (dest, fpath) \<in> set (local_files w') then w'
         else w'\<lparr>local_files := (dest, fpath) # local_files w',
                 transfers := transfers w' @ [(dest, fpath)]\<rparr>)"

text \<open>
  The loop over the listed objects. \<^verbatim>\<open>self.download_path\<close> is an argument of each call,
  so it is computed again for every object.
\<close>

fun download_all :: "remote \<Rightarrow> string list \<Rightarrow> world \<Rightarrow> (error + unit) \<times> world" where
  "download_all rm [] w = (Inr (), w)"
| "download_all rm (fpath # fpaths) w =
     (case download_path rm w of
        (Inl e, w') \<Rightarrow> (Inl e, w')
      | (Inr d, w') \<Rightarrow> download_all rm fpaths (fs_download fpath d ''APPEND'' w'))"

text \<open>
  The assignment of \<^verbatim>\<open>path_on_azure\<close>: \<open>Inr None\<close> when neither branch assigns it.
\<close>

definition path_on_azure :: "remote \<Rightarrow> dataset \<Rightarrow> data_asset \<Rightarrow> error + string option" where
  "path_on_azure rm self azureml_ds =
     (if asset_type azureml_ds = ''uri_file'' then
        Inr (Some (infer_storage_options rm (asset_path azureml_ds)))
      else if asset_type azureml_ds = ''uri_folder'' then
        (let dataset_root_on_azure = infer_storage_options rm (asset_path azureml_ds)
         in case dataset_config self (filepath_arg self) of
              None \<Rightarrow> Inl KeyError
            | Some fp \<Rightarrow> Inr (Some (str (joinpath (mkPath dataset_root_on_azure) (mkPath fp)))))
      else Inr None)"

text \<open>
  The body of \<^verbatim>\<open>if self._download:\<close> in \<^verbatim>\<open>_load\<close>. The handler of the client's
  not-found error resolves the version once more, for the message.
\<close>

definition load_download :: "remote \<Rightarrow> world \<Rightarrow> (error + unit) \<times> world" where
  "load_download rm w =
     (case get_azureml_dataset rm w of
        (Inl e, w1) \<Rightarrow>
          (if e = ResourceNotFoundError then
             (case resolve_load_version rm w1 of
                (Inl e', w2) \<Rightarrow> (Inl e', w2)
              | (Inr v, w2) \<Rightarrow> (Inl VersionNotFoundError, w2))
           else (Inl e, w1))
      | (Inr azureml_ds, w1) \<Rightarrow>
          (let w2 = w1\<lparr>calls := calls w1 @ [OpenFs (asset_path azureml_ds)]\<rparr>
           in case path_on_azure rm (ds w2) azureml_ds of
                Inl e \<Rightarrow> (Inl e, w2)
              | Inr None \<Rightarrow> (Inl UnboundLocalError, w2)
              | Inr (Some p) \<Rightarrow>
                  download_all rm (fs_ls rm (asset_path azureml_ds) p)
                    (w2\<lparr>calls := calls w2 @ [Ls p]\<rparr>)))"

text \<open>
  \<^verbatim>\<open>_load\<close>. \<open>inner\<close> is the inner dataset: built from a configuration, loaded, and its
  outcome returned as it is.
\<close>

definition load :: "((string \<rightharpoonup> string) \<Rightarrow> 'd) \<Rightarrow> remote \<Rightarrow> world \<Rightarrow> (error + 'd) \<times> world" where
  "load inner rm w =
     (case (if download (ds w) then load_download rm w else (Inr (), w)) of
        (Inl e, w1) \<Rightarrow> (Inl e, w1)
      | (Inr u, w1) \<Rightarrow>
          (case construct_dataset rm w1 of
             (Inl e, w2) \<Rightarrow> (Inl e, w2)
           | (Inr cfg, w2) \<Rightarrow> (Inr (inner cfg), w2)))"

section \<open>A concrete store and dataset\<close>

text \<open>
  The example of the specification: the asset \<^verbatim>\<open>"sales"\<close>, whose latest version is
  \<^verbatim>\<open>"3"\<close>, a folder asset; the folder root \<^verbatim>\<open>"data"\<close>; the inner file path under the key
  \<^verbatim>\<open>"filepath"\<close>. The dataset takes its version, its inner file path and the two mode
  flags, download-enabled and local-run, which a hook sets after construction.
\<close>

definition ex_remote :: remote where
  "ex_remote =
     \<lparr>data_get_latest = (\<lambda>n. if n = ''sales'' then Some ''3'' else None),
      data_get = (\<lambda>n v. if n = ''sales'' \<and> v = ''3''
                          then Some \<lparr>asset_type = ''uri_folder'', asset_path = ''azureml://sales/3''\<rparr>
                          else None),
      infer_storage_options = (\<lambda>u. ''store/sales''),
      fs_ls = (\<lambda>u p. [p])\<rparr>"

definition ex_dataset :: "string option \<Rightarrow> string \<Rightarrow> bool \<Rightarrow> bool \<Rightarrow> dataset" where
  "ex_dataset v fp dl loc =
     \<lparr>azureml_dataset = ''sales'',
      dataset_config = [''filepath'' \<mapsto> fp],
      version = v,
      folder = ''data'',
      filepath_arg = ''filepath'',
      version_cache = Map.empty,
      download = dl,
      local_run = loc\<rparr>"

definition ex_world :: "dataset \<Rightarrow> world" where
  "ex_world d = \<lparr>ds = d, calls = [], local_files = [], transfers = []\<rparr>"

text \<open>
  An inner dataset for the examples, whose load returns the file path it was configured
  with, and the same store with the asset of another type.
\<close>

definition ex_inner :: "(string \<rightharpoonup> string) \<Rightarrow> string option" where
  "ex_inner cfg = cfg ''filepath''"

definition ex_remote_of_type :: "string \<Rightarrow> remote" where
  "ex_remote_of_type t =
     ex_remote\<lparr>data_get := (\<lambda>n v. if n = ''sales'' \<and> v = ''3''
                                   then Some \<lparr>asset_type = t, asset_path = ''azureml://sales/3''\<rparr>
                                   else None)\<rparr>"

section \<open>Auxiliary notions for the proofs\<close>

text \<open>A string that \<^verbatim>\<open>Path\<close> reads as a relative path: it does not begin with a slash.\<close>

definition relative :: "string \<Rightarrow> bool" where
  "relative s = (root (mkPath s) = [])"

text \<open>
  The version is settled at \<open>v\<close> when resolving it needs no lookup any more: it is
  explicit, or the load slot holds it.
\<close>

definition settled :: "world \<Rightarrow> string \<Rightarrow> bool" where
  "settled w v =
     (version (ds w) = Some v \<or> (version (ds w) = None \<and> version_cache (ds w) ''load'' = Some v))"

text \<open>The value of \<^verbatim>\<open>path\<close> once the version is known to be \<open>v\<close>.\<close>

definition path_of :: "dataset \<Rightarrow> string \<Rightarrow> error + Path" where
  "path_of self v =
     (case dataset_config self (filepath_arg self) of
        None \<Rightarrow> Inl KeyError
      | Some fp \<Rightarrow>
          Inr (if local_run self
               then joinpath (joinpath (joinpath (mkPath (folder self))
                                                 (mkPath (azureml_dataset self)))
                                       (mkPath v))
                             (mkPath fp)
               else joinpath (mkPath (folder self)) (mkPath fp)))"

text \<open>The download target that belongs to a computed path.\<close>

definition target_of :: "Path \<Rightarrow> string" where
  "target_of p = (if suffix p \<noteq> [] then str (parent p) else str p)"

text \<open>The calls a run has added to the record.\<close>

definition new_calls :: "world \<Rightarrow> world \<Rightarrow> remote_call list" where
  "new_calls w w' = drop (length (calls w)) (calls w')"

text \<open>Calls among which every download is in the mode \<^verbatim>\<open>"APPEND"\<close>.\<close>

definition append_only :: "remote_call list \<Rightarrow> bool" where
  "append_only cs = (\<forall>c \<in> set cs. case c of Download f d m \<Rightarrow> m = ''APPEND'' | _ \<Rightarrow> True)"

text \<open>The transfers a run has added to the record.\<close>

definition new_transfers :: "world \<Rightarrow> world \<Rightarrow> (string \<times> string) list" where
  "new_transfers w w' = drop (length (transfers w)) (transfers w')"

text \<open>
  A later state of a run: the record of calls has grown by calls that download in the
  mode \<^verbatim>\<open>"APPEND"\<close> only, no local file has gone, the record of transfers has grown by
  files that were not there before, and the dataset differs in its cache at most.
\<close>

definition extends :: "world \<Rightarrow> world \<Rightarrow> bool" where
  "extends w w' =
     (calls w' = calls w @ new_calls w w' \<and> append_only (new_calls w w') \<and>
      set (local_files w) \<subseteq> set (local_files w') \<and>
      transfers w' = transfers w @ new_transfers w w' \<and>
      set (new_transfers w w') \<inter> set (local_files w) = {} \<and>
      ds w' = (ds w)\<lparr>version_cache := version_cache (ds w')\<rparr>)"

text \<open>
  What the download branch of \<^verbatim>\<open>_load\<close> does before its loop, once the version is known
  to be \<open>v\<close>: the objects to download, or the error, and the calls made on the way.
\<close>

definition download_plan :: "remote \<Rightarrow> dataset \<Rightarrow> string \<Rightarrow> (error + string list) \<times> remote_call list" where
  "download_plan rm self v =
     (case data_get rm (azureml_dataset self) v of
        None \<Rightarrow> (Inl VersionNotFoundError, [GetAsset (azureml_dataset self) v])
      | Some a \<Rightarrow>
          (case path_on_azure rm self a of
             Inl e \<Rightarrow> (Inl e, [GetAsset (azureml_dataset self) v, OpenFs (asset_path a)])
           | Inr None \<Rightarrow>
               (Inl UnboundLocalError, [GetAsset (azureml_dataset self) v, OpenFs (asset_path a)])
           | Inr (Some p) \<Rightarrow>
               (Inr (fs_ls rm (asset_path a) p),
                [GetAsset (azureml_dataset self) v, OpenFs (asset_path a), Ls p])))"

text \<open>The loop of downloads into one target.\<close>

definition download_each :: "string \<Rightarrow> string list \<Rightarrow> world \<Rightarrow> world" where
  "download_each d fpaths w = foldl (\<lambda>w' fpath. fs_download fpath d ''APPEND'' w') w fpaths"

section \<open>How the operations move the state\<close>

lemmas run_eval =
  load_def load_download_def construct_dataset_def get_azureml_dataset_def path_on_azure_def
  download_path_def path_def resolve_load_version_def fetch_latest_load_version_def
  get_latest_version_def fs_download_def Let_def

lemmas ex_eval = ex_world_def ex_dataset_def ex_remote_def ex_remote_of_type_def ex_inner_def

lemmas path_eval =
  mkPath_def splitroot_def joinpath_def str_def suffix_def name_def rfind_def parent_def
  target_of_def

lemma resolve_Inr:
  "resolve_load_version rm w = (Inr v, w') \<Longrightarrow>
     settled w' v \<and> local_files w' = local_files w \<and> transfers w' = transfers w \<and>
     ds w' = (ds w)\<lparr>version_cache := version_cache (ds w')\<rparr>"
  by (auto simp: resolve_load_version_def fetch_latest_load_version_def get_latest_version_def
      settled_def Let_def split: option.splits)

lemma resolve_Inl:
  "resolve_load_version rm w = (Inl e, w') \<Longrightarrow>
     e = DataSetNotFoundError \<and> version (ds w) = None \<and> version_cache (ds w) ''load'' = None \<and>
     data_get_latest rm (azureml_dataset (ds w)) = None \<and>
     w' = w\<lparr>calls := calls w @ [GetLatest (azureml_dataset (ds w))]\<rparr>"
  by (auto simp: resolve_load_version_def fetch_latest_load_version_def get_latest_version_def
      Let_def split: option.splits)

lemma settled_resolve: "settled w v \<Longrightarrow> resolve_load_version rm w = (Inr v, w)"
  by (auto simp: resolve_load_version_def fetch_latest_load_version_def settled_def)

lemma settled_path: "settled w v \<Longrightarrow> path rm w = (path_of (ds w) v, w)"
  by (simp add: path_def path_of_def settled_resolve split: option.splits)

lemma remote_run_path: "\<not> local_run (ds w) \<Longrightarrow> path rm w = (path_of (ds w) v, w)"
  by (simp add: path_def path_of_def split: option.splits)

lemma path_of_cache: "path_of (self\<lparr>version_cache := c\<rparr>) v = path_of self v"
  by (simp add: path_of_def split: option.splits)

lemma path_local:
  assumes "local_run (ds w)" and "resolve_load_version rm w = (Inr v, w')"
  shows "path rm w = (path_of (ds w) v, w')"
proof -
  from resolve_Inr [OF assms(2)]
  have eq: "ds w' = (ds w)\<lparr>version_cache := version_cache (ds w')\<rparr>" by simp
  have f: "dataset_config (ds w') = dataset_config (ds w)"
    "filepath_arg (ds w') = filepath_arg (ds w)"
    "folder (ds w') = folder (ds w)"
    "azureml_dataset (ds w') = azureml_dataset (ds w)"
    by (subst eq, simp)+
  show ?thesis
    using assms by (simp add: path_def path_of_def f split: option.splits)
qed


lemma path_Inr_again:
  assumes "path rm w = (Inr p, w')"
  shows "path rm w' = (Inr p, w')"
proof (cases "local_run (ds w)")
  case False
  then show ?thesis using assms by (auto simp: path_def split: option.splits)
next
  case True
  from assms True obtain v where r: "resolve_load_version rm w = (Inr v, w')"
    by (auto simp: path_def split: option.splits sum.splits prod.splits)
  from resolve_Inr [OF r] have s: "settled w' v"
    and eq: "ds w' = (ds w)\<lparr>version_cache := version_cache (ds w')\<rparr>" by simp_all
  have "path_of (ds w') v = path_of (ds w) v"
    by (subst eq) (rule path_of_cache)
  with path_local [OF True r] assms settled_path [OF s, of rm] show ?thesis by simp
qed

lemma download_path_target:
  "path rm w = (Inr p, w') \<Longrightarrow> download_path rm w = (Inr (target_of p), w')"
  by (simp add: download_path_def target_of_def path_Inr_again)

lemma download_path_Inl:
  "path rm w = (Inl e, w') \<Longrightarrow> download_path rm w = (Inl e, w')"
  by (simp add: download_path_def)



lemma split_sep_none: "c \<notin> set s \<Longrightarrow> split_sep c s = [s]"
  by (induction s) auto

lemma mkPath_single:
  "CHR ''/'' \<notin> set v \<Longrightarrow> v \<noteq> [] \<Longrightarrow> v \<noteq> ''.'' \<Longrightarrow> mkPath v = \<lparr>root = [], names = [v]\<rparr>"
  by (cases v) (auto simp: mkPath_def splitroot_def split_sep_none)

section \<open>The download branch, once the version is settled\<close>

lemma fs_download_ds: "ds (fs_download f d m w) = ds w"
  by (simp add: fs_download_def Let_def)

lemma settled_fs_download: "settled (fs_download f d m w) v = settled w v"
  by (simp add: settled_def fs_download_ds)

lemma settled_calls: "settled (w\<lparr>calls := cs\<rparr>) v = settled w v"
  by (simp add: settled_def)

lemma download_each_Nil: "download_each d [] w = w"
  by (simp add: download_each_def)

lemma download_each_Cons:
  "download_each d (f # fs) w = download_each d fs (fs_download f d ''APPEND'' w)"
  by (simp add: download_each_def)

lemma download_each_ds: "ds (download_each d fs w) = ds w"
  by (induction fs arbitrary: w) (simp_all add: download_each_Nil download_each_Cons fs_download_ds)

lemma download_all_settled_ok:
  "path_of (ds w) v = Inr p \<Longrightarrow> settled w v \<Longrightarrow>
     download_all rm fs w = (Inr (), download_each (target_of p) fs w)"
proof (induction fs arbitrary: w)
  case Nil
  then show ?case by (simp add: download_each_Nil)
next
  case (Cons f fs)
  from settled_path [OF Cons.prems(2), of rm] Cons.prems(1)
  have p: "path rm w = (Inr p, w)" by simp
  have d: "download_path rm w = (Inr (target_of p), w)" by (rule download_path_target [OF p])
  let ?w = "fs_download f (target_of p) ''APPEND'' w"
  have "path_of (ds ?w) v = Inr p" "settled ?w v"
    using Cons.prems by (simp_all add: fs_download_ds settled_fs_download)
  from Cons.IH [OF this] show ?case by (simp add: d download_each_Cons)
qed

lemma download_all_settled_err:
  assumes "path_of (ds w) v = Inl e" and "settled w v" and "fs \<noteq> []"
  shows "download_all rm fs w = (Inl e, w)"
proof -
  from settled_path [OF assms(2), of rm] assms(1) have "path rm w = (Inl e, w)" by simp
  then have "download_path rm w = (Inl e, w)" by (rule download_path_Inl)
  with assms(3) show ?thesis by (cases fs) simp_all
qed


lemma load_download_resolved:
  assumes "resolve_load_version rm w = (Inr v, w1)"
  shows "load_download rm w =
     (case download_plan rm (ds w1) v of
        (Inl e, cs) \<Rightarrow> (Inl e, w1\<lparr>calls := calls w1 @ cs\<rparr>)
      | (Inr fs, cs) \<Rightarrow> download_all rm fs (w1\<lparr>calls := calls w1 @ cs\<rparr>))"
proof -
  from resolve_Inr [OF assms] have s: "settled w1 v" by simp
  have s': "resolve_load_version rm (w1\<lparr>calls := cs\<rparr>) = (Inr v, w1\<lparr>calls := cs\<rparr>)" for cs
    by (rule settled_resolve) (simp add: settled_calls s)
  show ?thesis
    using assms
    by (simp add: load_download_def get_azureml_dataset_def download_plan_def Let_def
        s' split: option.splits sum.splits)
qed


lemma resolve_calls:
  "calls (snd (resolve_load_version rm w)) =
     calls w @ (if version (ds w) = None \<and> version_cache (ds w) ''load'' = None
                then [GetLatest (azureml_dataset (ds w))] else [])"
  by (auto simp: resolve_load_version_def fetch_latest_load_version_def get_latest_version_def
      Let_def split: option.splits)

lemma resolve_transfers: "transfers (snd (resolve_load_version rm w)) = transfers w"
  by (auto simp: resolve_load_version_def fetch_latest_load_version_def get_latest_version_def
      Let_def split: option.splits)

lemma resolve_local_files: "local_files (snd (resolve_load_version rm w)) = local_files w"
  by (auto simp: resolve_load_version_def fetch_latest_load_version_def get_latest_version_def
      Let_def split: option.splits)

lemma resolve_ds:
  "ds (snd (resolve_load_version rm w))
     = (ds w)\<lparr>version_cache := version_cache (ds (snd (resolve_load_version rm w)))\<rparr>"
  by (auto simp: resolve_load_version_def fetch_latest_load_version_def get_latest_version_def
      Let_def split: option.splits)

lemma snd_path:
  "snd (path rm w) = (if local_run (ds w) then snd (resolve_load_version rm w) else w)"
  by (auto simp: path_def split: option.splits sum.splits prod.splits)

lemma path_calls:
  "calls (snd (path rm w)) =
     calls w @ (if local_run (ds w) \<and> version (ds w) = None \<and> version_cache (ds w) ''load'' = None
                then [GetLatest (azureml_dataset (ds w))] else [])"
  by (simp add: snd_path resolve_calls)

lemma path_transfers: "transfers (snd (path rm w)) = transfers w"
  by (simp add: snd_path resolve_transfers)

lemma path_local_files: "local_files (snd (path rm w)) = local_files w"
  by (simp add: snd_path resolve_local_files)

lemma path_ds: "ds (snd (path rm w)) = (ds w)\<lparr>version_cache := version_cache (ds (snd (path rm w)))\<rparr>"
  using resolve_ds [of rm w] by (simp add: snd_path)

lemma load_no_download:
  "\<not> download (ds w) \<Longrightarrow>
     load inner rm w =
       (case path rm w of
          (Inl e, w') \<Rightarrow> (Inl e, w')
        | (Inr p, w') \<Rightarrow>
            (Inr (inner ((dataset_config (ds w'))(filepath_arg (ds w') \<mapsto> str p))), w'))"
  by (simp add: load_def construct_dataset_def split: prod.splits sum.splits)

lemma snd_load_no_download:
  "\<not> download (ds w) \<Longrightarrow> snd (load inner rm w) = snd (path rm w)"
  by (simp add: load_no_download split: prod.splits sum.splits)

lemma download_each_calls:
  "calls (download_each d fs w) = calls w @ map (\<lambda>f. Download f d ''APPEND'') fs"
  by (induction fs arbitrary: w)
     (simp_all add: download_each_Nil download_each_Cons fs_download_def Let_def)

lemma fs_download_local:
  "set (local_files (fs_download f d ''APPEND'' w)) = insert (d, f) (set (local_files w))"
  by (auto simp: fs_download_def Let_def)

lemma download_each_local:
  "set (local_files (download_each d fs w)) = (\<lambda>f. (d, f)) ` set fs \<union> set (local_files w)"
  by (induction fs arbitrary: w)
     (auto simp: download_each_Nil download_each_Cons fs_download_local)

lemma download_each_present:
  "\<forall>f \<in> set fs. (d, f) \<in> set (local_files w) \<Longrightarrow>
     transfers (download_each d fs w) = transfers w"
proof (induction fs arbitrary: w)
  case Nil
  then show ?case by (simp add: download_each_Nil)
next
  case (Cons f fs)
  then have in_w: "(d, f) \<in> set (local_files w)" by simp
  then have same: "fs_download f d ''APPEND'' w = w\<lparr>calls := calls w @ [Download f d ''APPEND'']\<rparr>"
    by (simp add: fs_download_def Let_def)
  have "\<forall>g \<in> set fs. (d, g) \<in> set (local_files (fs_download f d ''APPEND'' w))"
    using Cons.prems by (simp add: same)
  from Cons.IH [OF this] show ?case by (simp add: download_each_Cons same)
qed

lemma load_settled:
  assumes "settled w v" and "download (ds w)"
  shows "load inner rm w =
     (case download_plan rm (ds w) v of
        (Inl e, cs) \<Rightarrow> (Inl e, w\<lparr>calls := calls w @ cs\<rparr>)
      | (Inr fs, cs) \<Rightarrow>
          (case path_of (ds w) v of
             Inl e \<Rightarrow> (Inl e, w\<lparr>calls := calls w @ cs\<rparr>)
           | Inr p \<Rightarrow>
               (Inr (inner ((dataset_config (ds w))(filepath_arg (ds w) \<mapsto> str p))),
                download_each (target_of p) fs (w\<lparr>calls := calls w @ cs\<rparr>))))"
proof (cases "download_plan rm (ds w) v")
  case (Pair r cs)
  let ?w = "w\<lparr>calls := calls w @ cs\<rparr>"
  have sw: "settled ?w v" using assms(1) by (simp add: settled_calls)
  have dw: "ds ?w = ds w" by simp
  have ld: "load_download rm w =
     (case r of Inl e \<Rightarrow> (Inl e, ?w) | Inr fs \<Rightarrow> download_all rm fs ?w)"
    using load_download_resolved [OF settled_resolve [OF assms(1)], of rm] Pair
    by (simp split: sum.splits)
  show ?thesis
  proof (cases r)
    case (Inl e)
    with Pair ld assms(2) show ?thesis by (simp add: load_def)
  next
    case (Inr fs)
    show ?thesis
    proof (cases "path_of (ds w) v")
      case e: (Inl e)
      from settled_path [OF sw, of rm] e have pw: "path rm ?w = (Inl e, ?w)" by simp
      have "load inner rm w = (Inl e, ?w)"
      proof (cases "fs = []")
        case True
        with ld Inr assms(2) pw show ?thesis
          by (simp add: load_def construct_dataset_def)
      next
        case False
        from e have "path_of (ds ?w) v = Inl e" by simp
        from download_all_settled_err [OF this sw False, of rm] ld Inr assms(2)
        show ?thesis by (simp add: load_def)
      qed
      with Pair Inr e show ?thesis by simp
    next
      case p: (Inr p)
      let ?wf = "download_each (target_of p) fs ?w"
      from p have "path_of (ds ?w) v = Inr p" by simp
      from download_all_settled_ok [OF this sw, of rm fs]
      have da: "download_all rm fs ?w = (Inr (), ?wf)" .
      have "settled ?wf v" using assms(1) by (simp add: settled_def download_each_ds)
      from settled_path [OF this, of rm] p
      have "path rm ?wf = (Inr p, ?wf)" by (simp add: download_each_ds)
      with da ld Inr assms(2) Pair p show ?thesis
        by (simp add: load_def construct_dataset_def download_each_ds)
    qed
  qed
qed

lemma load_resolved:
  assumes "download (ds w)" and "resolve_load_version rm w = (Inr v, w1)"
  shows "load inner rm w = load inner rm w1"
proof -
  from resolve_Inr [OF assms(2)] have s: "settled w1 v"
    and eq: "ds w1 = (ds w)\<lparr>version_cache := version_cache (ds w1)\<rparr>" by simp_all
  have d: "download (ds w1)" by (subst eq) (simp add: assms(1))
  have "load_download rm w = load_download rm w1"
    by (simp add: load_download_resolved [OF assms(2)]
        load_download_resolved [OF settled_resolve [OF s]])
  with assms(1) d show ?thesis by (simp add: load_def)
qed

lemma settled_download_path:
  assumes "settled w v" and "fst (download_path rm w) = Inr d"
  shows "\<exists>p. path_of (ds w) v = Inr p \<and> d = target_of p"
proof (cases "path_of (ds w) v")
  case (Inl e)
  with settled_path [OF assms(1), of rm] have "path rm w = (Inl e, w)" by simp
  from download_path_Inl [OF this] assms(2) show ?thesis by simp
next
  case (Inr p)
  with settled_path [OF assms(1), of rm] have "path rm w = (Inr p, w)" by simp
  from download_path_target [OF this] assms(2) Inr show ?thesis by simp
qed

section \<open>What a run adds to the records\<close>

lemma extendsI:
  assumes "calls w' = calls w @ cs" and "append_only cs"
    and "set (local_files w) \<subseteq> set (local_files w')"
    and "transfers w' = transfers w @ ts" and "set ts \<inter> set (local_files w) = {}"
    and "ds w' = (ds w)\<lparr>version_cache := c\<rparr>"
  shows "extends w w'"
proof -
  have "new_calls w w' = cs" "new_transfers w w' = ts"
    using assms(1,4) by (simp_all add: new_calls_def new_transfers_def)
  moreover have "ds w' = (ds w)\<lparr>version_cache := version_cache (ds w')\<rparr>"
    by (subst (1 2) assms(6)) simp
  ultimately show ?thesis using assms by (simp add: extends_def)
qed

lemma extends_refl: "extends w w"
  by (rule extendsI [where cs = "[]" and ts = "[]" and c = "version_cache (ds w)"])
     (simp_all add: append_only_def)

lemma append_only_append: "append_only (xs @ ys) = (append_only xs \<and> append_only ys)"
  by (auto simp: append_only_def)

lemma extends_trans:
  assumes "extends w w'" and "extends w' w''"
  shows "extends w w''"
proof (rule extendsI)
  show "calls w'' = calls w @ (new_calls w w' @ new_calls w' w'')"
    using assms by (simp add: extends_def)
  show "append_only (new_calls w w' @ new_calls w' w'')"
    using assms by (simp add: extends_def append_only_append)
  show "set (local_files w) \<subseteq> set (local_files w'')"
    using assms by (auto simp: extends_def)
  show "transfers w'' = transfers w @ (new_transfers w w' @ new_transfers w' w'')"
    using assms by (simp add: extends_def)
  show "set (new_transfers w w' @ new_transfers w' w'') \<inter> set (local_files w) = {}"
    using assms by (auto simp: extends_def)
  have a: "ds w' = (ds w)\<lparr>version_cache := version_cache (ds w')\<rparr>"
    and b: "ds w'' = (ds w')\<lparr>version_cache := version_cache (ds w'')\<rparr>"
    using assms by (simp_all add: extends_def)
  show "ds w'' = (ds w)\<lparr>version_cache := version_cache (ds w'')\<rparr>"
    by (subst b, subst a) simp
qed

lemma extends_calls:
  "append_only cs \<Longrightarrow> extends w (w\<lparr>calls := calls w @ cs\<rparr>)"
  by (rule extendsI [where cs = cs and ts = "[]" and c = "version_cache (ds w)"]) simp_all

lemma extends_resolve: "extends w (snd (resolve_load_version rm w))"
proof (rule extendsI)
  show "calls (snd (resolve_load_version rm w)) =
     calls w @ (if version (ds w) = None \<and> version_cache (ds w) ''load'' = None
                then [GetLatest (azureml_dataset (ds w))] else [])"
    by (rule resolve_calls)
  show "append_only (if version (ds w) = None \<and> version_cache (ds w) ''load'' = None
                then [GetLatest (azureml_dataset (ds w))] else [])"
    by (simp add: append_only_def)
  show "set (local_files w) \<subseteq> set (local_files (snd (resolve_load_version rm w)))"
    by (simp add: resolve_local_files)
  show "transfers (snd (resolve_load_version rm w)) = transfers w @ []"
    by (simp add: resolve_transfers)
  show "set [] \<inter> set (local_files w) = {}" by simp
  show "ds (snd (resolve_load_version rm w))
     = (ds w)\<lparr>version_cache := version_cache (ds (snd (resolve_load_version rm w)))\<rparr>"
    by (rule resolve_ds)
qed

lemma extends_path: "extends w (snd (path rm w))"
  by (simp add: snd_path extends_resolve extends_refl)

lemma extends_fs_download: "extends w (fs_download f d ''APPEND'' w)"
proof (cases "(d, f) \<in> set (local_files w)")
  case True
  then show ?thesis
    by (intro extendsI [where cs = "[Download f d ''APPEND'']" and ts = "[]"
          and c = "version_cache (ds w)"])
       (simp_all add: fs_download_def Let_def append_only_def)
next
  case False
  then show ?thesis
    by (intro extendsI [where cs = "[Download f d ''APPEND'']" and ts = "[(d, f)]"
          and c = "version_cache (ds w)"])
       (auto simp: fs_download_def Let_def append_only_def)
qed

lemma extends_download_each: "extends w (download_each d fs w)"
proof (induction fs arbitrary: w)
  case Nil
  show ?case by (simp add: download_each_Nil extends_refl)
next
  case (Cons f fs)
  from extends_trans [OF extends_fs_download Cons.IH]
  show ?case by (simp add: download_each_Cons)
qed

lemma download_plan_append_only: "append_only (snd (download_plan rm self v))"
  by (simp add: download_plan_def append_only_def split: option.splits sum.splits)

lemma extends_load_settled:
  assumes "settled w v" and "download (ds w)"
  shows "extends w (snd (load inner rm w))"
proof (cases "download_plan rm (ds w) v")
  case (Pair r cs)
  with download_plan_append_only [of rm "ds w" v] have "append_only cs" by simp
  then have e: "extends w (w\<lparr>calls := calls w @ cs\<rparr>)" by (rule extends_calls)
  from extends_trans [OF e extends_download_each]
  have e': "extends w (download_each d fs (w\<lparr>calls := calls w @ cs\<rparr>))" for d fs .
  from Pair e e' show ?thesis
    by (simp add: load_settled [OF assms] split: sum.splits)
qed


lemma load_resolve_fail:
  assumes "download (ds w)" and "resolve_load_version rm w = (Inl e, w1)"
  shows "load inner rm w = (Inl e, w1)"
proof -
  from resolve_Inl [OF assms(2)] have "e \<noteq> ResourceNotFoundError" by simp
  with assms show ?thesis
    by (simp add: load_def load_download_def get_azureml_dataset_def)
qed

lemma extends_load: "extends w (snd (load inner rm w))"
proof (cases "download (ds w)")
  case False
  then show ?thesis by (simp add: snd_load_no_download extends_path)
next
  case True
  show ?thesis
  proof (cases "resolve_load_version rm w")
    case (Pair r w1)
    then have w1: "w1 = snd (resolve_load_version rm w)" by simp
    show ?thesis
    proof (cases r)
      case (Inl e)
      with Pair load_resolve_fail [OF True, of rm e w1 inner] show ?thesis
        by (simp add: w1 extends_resolve)
    next
      case (Inr v)
      with Pair have r: "resolve_load_version rm w = (Inr v, w1)" by simp
      from resolve_Inr [OF r] have s: "settled w1 v"
        and eq: "ds w1 = (ds w)\<lparr>version_cache := version_cache (ds w1)\<rparr>" by simp_all
      have d1: "download (ds w1)" by (subst eq) (simp add: True)
      have "extends w w1" by (simp add: w1 extends_resolve)
      from extends_trans [OF this extends_load_settled [OF s d1, of inner rm]]
      show ?thesis by (simp add: load_resolved [OF True r])
    qed
  qed
qed

lemma load_settled_again:
  assumes "settled w v" and "download (ds w)"
  shows "transfers (snd (load inner rm (snd (load inner rm w))))
           = transfers (snd (load inner rm w))"
proof (cases "download_plan rm (ds w) v")
  case (Pair r cs)
  let ?w = "w\<lparr>calls := calls w @ cs\<rparr>"
  show ?thesis
  proof (cases r)
    case (Inl e)
    with Pair have l: "load inner rm w = (Inl e, ?w)" by (simp add: load_settled [OF assms])
    have s: "settled ?w v" "download (ds ?w)" using assms by (simp_all add: settled_calls)
    from Pair Inl show ?thesis by (simp add: l load_settled [OF s])
  next
    case (Inr fs)
    show ?thesis
    proof (cases "path_of (ds w) v")
      case e: (Inl e)
      with Pair Inr have l: "load inner rm w = (Inl e, ?w)"
        by (simp add: load_settled [OF assms])
      have s: "settled ?w v" "download (ds ?w)" using assms by (simp_all add: settled_calls)
      from Pair Inr e show ?thesis by (simp add: l load_settled [OF s])
    next
      case p: (Inr p)
      let ?wf = "download_each (target_of p) fs ?w"
      from Pair Inr p have l: "snd (load inner rm w) = ?wf"
        by (simp add: load_settled [OF assms])
      have s: "settled ?wf v" "download (ds ?wf)"
        using assms by (simp_all add: settled_def download_each_ds)
      have pres: "\<forall>f \<in> set fs. (target_of p, f) \<in> set (local_files (?wf\<lparr>calls := calls ?wf @ cs\<rparr>))"
        by (simp add: download_each_local)
      from Pair Inr p
      have "snd (load inner rm ?wf)
              = download_each (target_of p) fs (?wf\<lparr>calls := calls ?wf @ cs\<rparr>)"
        by (simp add: load_settled [OF s] download_each_ds)
      with download_each_present [OF pres] show ?thesis by (simp add: l)
    qed
  qed
qed

lemma load_twice_transfers:
  "transfers (snd (load inner rm (snd (load inner rm w)))) = transfers (snd (load inner rm w))"
proof (cases "download (ds w)")
  case False
  let ?w1 = "snd (path rm w)"
  from path_ds [of rm w]
  have eq: "ds ?w1 = (ds w)\<lparr>version_cache := version_cache (ds ?w1)\<rparr>" by simp
  have "\<not> download (ds ?w1)" by (subst eq) (simp add: False)
  then show ?thesis
    by (simp add: snd_load_no_download [OF False] snd_load_no_download path_transfers)
next
  case True
  show ?thesis
  proof (cases "resolve_load_version rm w")
    case (Pair r w1)
    show ?thesis
    proof (cases r)
      case (Inl e)
      with Pair have r: "resolve_load_version rm w = (Inl e, w1)" by simp
      from resolve_Inl [OF r] have f: "version (ds w) = None"
        "version_cache (ds w) ''load'' = None"
        "data_get_latest rm (azureml_dataset (ds w)) = None"
        "w1 = w\<lparr>calls := calls w @ [GetLatest (azureml_dataset (ds w))]\<rparr>" by simp_all
      have d1: "download (ds w1)" by (simp add: f(4) True)
      have r1: "resolve_load_version rm w1
          = (Inl DataSetNotFoundError, w1\<lparr>calls := calls w1 @ [GetLatest (azureml_dataset (ds w1))]\<rparr>)"
        using f(1-3) by (simp add: f(4) resolve_load_version_def fetch_latest_load_version_def
            get_latest_version_def Let_def)
      show ?thesis
        by (simp add: load_resolve_fail [OF True r] load_resolve_fail [OF d1 r1])
    next
      case (Inr v)
      with Pair have r: "resolve_load_version rm w = (Inr v, w1)" by simp
      from resolve_Inr [OF r] have s: "settled w1 v"
        and eq: "ds w1 = (ds w)\<lparr>version_cache := version_cache (ds w1)\<rparr>" by simp_all
      have d1: "download (ds w1)" by (subst eq) (simp add: True)
      from load_settled_again [OF s d1, of inner rm]
      show ?thesis by (simp add: load_resolved [OF True r])
    qed
  qed
qed

section \<open>Construction: the versioning conflict\<close>

text \<open>
  C2. Construction fails with the configuration-conflict error \<open>DataSetError\<close> exactly
  when the inner configuration has an entry under the versioning key, and succeeds with
  the fields set otherwise. The constructor is a function of its arguments alone: there is
  no remote store it could call before failing.
\<close>

theorem init_versioning_conflict:
  "(VERSION_KEY \<in> dom cfg \<longrightarrow> init VERSION_KEY a cfg v f fa = Inl DataSetError) \<and>
   (VERSION_KEY \<notin> dom cfg \<longrightarrow>
      init VERSION_KEY a cfg v f fa =
        Inr \<lparr>azureml_dataset = a, dataset_config = cfg, version = v, folder = f,
             filepath_arg = fa, version_cache = Map.empty, download = False,
             local_run = False\<rparr>)"
  by (simp add: init_def)

theorem init_versioning_conflict_witness:
  "''version'' \<in> dom [''filepath'' \<mapsto> ''orders.csv'', ''version'' \<mapsto> ''x''] \<and>
   init ''version'' ''sales'' [''filepath'' \<mapsto> ''orders.csv'', ''version'' \<mapsto> ''x''] None
     ''data'' ''filepath'' = Inl DataSetError \<and>
   ''version'' \<notin> dom [''filepath'' \<mapsto> ''orders.csv''] \<and>
   init ''version'' ''sales'' [''filepath'' \<mapsto> ''orders.csv''] None ''data'' ''filepath''
     = Inr (ex_dataset None ''orders.csv'' False False)"
proof -
  have h1: "''version'' \<in> dom [''filepath'' \<mapsto> ''orders.csv'', ''version'' \<mapsto> ''x'']"
    by simp
  have h2: "''version'' \<notin> dom [''filepath'' \<mapsto> ''orders.csv'']"
    by simp
  show ?thesis
    using h1 h2
      init_versioning_conflict [of "''version''"
        "[''filepath'' \<mapsto> ''orders.csv'', ''version'' \<mapsto> ''x'']" "''sales''" None "''data''" "''filepath''"]
      init_versioning_conflict [of "''version''"
        "[''filepath'' \<mapsto> ''orders.csv'']" "''sales''" None "''data''" "''filepath''"]
    by (simp add: ex_dataset_def)
qed

section \<open>Version resolution: explicit and cached\<close>

text \<open>
  C5. With an explicit version \<open>V\<close> supplied at construction, \<open>resolve_load_version\<close>
  returns \<open>V\<close> and leaves the whole state as it was: no remote call is recorded and the
  cache is not touched.
\<close>

theorem resolve_load_version_explicit:
  "version (ds w) = Some V \<Longrightarrow>
     resolve_load_version rm w = (Inr V, w) \<and>
     calls (snd (resolve_load_version rm w)) = calls w"
  by (simp add: resolve_load_version_def)

theorem resolve_load_version_explicit_witness:
  "version (ds (ex_world (ex_dataset (Some ''7'') ''orders.csv'' False False))) = Some ''7'' \<and>
   resolve_load_version ex_remote (ex_world (ex_dataset (Some ''7'') ''orders.csv'' False False))
     = (Inr ''7'', ex_world (ex_dataset (Some ''7'') ''orders.csv'' False False)) \<and>
   calls (snd (resolve_load_version ex_remote (ex_world (ex_dataset (Some ''7'') ''orders.csv'' False False))))
     = []"
proof -
  have h: "version (ds (ex_world (ex_dataset (Some ''7'') ''orders.csv'' False False))) = Some ''7''"
    by (simp add: ex_world_def ex_dataset_def)
  show ?thesis
    using h resolve_load_version_explicit [OF h, of ex_remote]
    by (simp add: ex_world_def)
qed

text \<open>
  C4, as amended. Take no explicit version and an empty load slot. If the store knows the
  asset, two calls of \<open>resolve_load_version\<close> in a row both return the store's latest
  version, the first call fills the load slot, and the two calls together record exactly
  one remote lookup of the latest version. If the store does not know the asset, each
  call fails with \<open>DataSetNotFoundError\<close>, nothing is stored in the load slot, and each
  call records a lookup of its own.
\<close>

theorem resolve_load_version_twice:
  assumes "version (ds w) = None"
    and "version_cache (ds w) ''load'' = None"
  shows "(data_get_latest rm (azureml_dataset (ds w)) = Some v \<longrightarrow>
            fst (resolve_load_version rm w) = Inr v \<and>
            fst (resolve_load_version rm (snd (resolve_load_version rm w))) = Inr v \<and>
            version_cache (ds (snd (resolve_load_version rm w))) ''load'' = Some v \<and>
            calls (snd (resolve_load_version rm (snd (resolve_load_version rm w))))
              = calls w @ [GetLatest (azureml_dataset (ds w))]) \<and>
         (data_get_latest rm (azureml_dataset (ds w)) = None \<longrightarrow>
            fst (resolve_load_version rm w) = Inl DataSetNotFoundError \<and>
            fst (resolve_load_version rm (snd (resolve_load_version rm w)))
              = Inl DataSetNotFoundError \<and>
            version_cache (ds (snd (resolve_load_version rm w))) ''load'' = None \<and>
            calls (snd (resolve_load_version rm (snd (resolve_load_version rm w))))
              = calls w @ [GetLatest (azureml_dataset (ds w)), GetLatest (azureml_dataset (ds w))])"
  using assms
  by (simp add: resolve_load_version_def fetch_latest_load_version_def get_latest_version_def)

theorem resolve_load_version_twice_witness:
  "version (ds (ex_world (ex_dataset None ''orders.csv'' False False))) = None \<and>
   version_cache (ds (ex_world (ex_dataset None ''orders.csv'' False False))) ''load'' = None \<and>
   data_get_latest ex_remote (azureml_dataset (ds (ex_world (ex_dataset None ''orders.csv'' False False))))
     = Some ''3'' \<and>
   fst (resolve_load_version ex_remote (ex_world (ex_dataset None ''orders.csv'' False False))) = Inr ''3'' \<and>
   fst (resolve_load_version ex_remote
          (snd (resolve_load_version ex_remote (ex_world (ex_dataset None ''orders.csv'' False False)))))
     = Inr ''3'' \<and>
   calls (snd (resolve_load_version ex_remote
                 (snd (resolve_load_version ex_remote (ex_world (ex_dataset None ''orders.csv'' False False))))))
     = [GetLatest ''sales''] \<and>
   version (ds (ex_world ((ex_dataset None ''orders.csv'' False False)\<lparr>azureml_dataset := ''ghost''\<rparr>)))
     = None \<and>
   version_cache
     (ds (ex_world ((ex_dataset None ''orders.csv'' False False)\<lparr>azureml_dataset := ''ghost''\<rparr>)))
     ''load'' = None \<and>
   data_get_latest ex_remote
     (azureml_dataset
        (ds (ex_world ((ex_dataset None ''orders.csv'' False False)\<lparr>azureml_dataset := ''ghost''\<rparr>))))
     = None \<and>
   version_cache
     (ds (snd (resolve_load_version ex_remote
                 (ex_world ((ex_dataset None ''orders.csv'' False False)\<lparr>azureml_dataset := ''ghost''\<rparr>)))))
     ''load'' = None"
proof -
  let ?S = "ex_world (ex_dataset None ''orders.csv'' False False)"
  let ?G = "ex_world ((ex_dataset None ''orders.csv'' False False)\<lparr>azureml_dataset := ''ghost''\<rparr>)"
  have h1: "version (ds ?S) = None" "version (ds ?G) = None"
    by (simp_all add: ex_world_def ex_dataset_def)
  have h2: "version_cache (ds ?S) ''load'' = None" "version_cache (ds ?G) ''load'' = None"
    by (simp_all add: ex_world_def ex_dataset_def)
  have h3: "data_get_latest ex_remote (azureml_dataset (ds ?S)) = Some ''3''"
    "data_get_latest ex_remote (azureml_dataset (ds ?G)) = None"
    by (simp_all add: ex_world_def ex_dataset_def ex_remote_def)
  have c: "calls ?S = []"
    by (simp add: ex_world_def)
  have n: "azureml_dataset (ds ?S) = ''sales''"
    by (simp add: ex_world_def ex_dataset_def)
  from resolve_load_version_twice [OF h1(1) h2(1), of ex_remote "''3''"]
       resolve_load_version_twice [OF h1(2) h2(2), of ex_remote "''3''"]
  show ?thesis
    using h1 h2 h3 by (simp add: c n)
qed

text \<open>
  The claim as written fails for an asset the store does not know: the failed lookup
  stores nothing, so the second call looks the asset up again; two lookups are recorded
  and no version is returned.
\<close>

theorem resolve_load_version_twice_missing_asset_counterexample:
  "version (ds (ex_world ((ex_dataset None ''orders.csv'' False False)\<lparr>azureml_dataset := ''ghost''\<rparr>)))
     = None \<and>
   fst (resolve_load_version ex_remote
          (ex_world ((ex_dataset None ''orders.csv'' False False)\<lparr>azureml_dataset := ''ghost''\<rparr>)))
     = Inl DataSetNotFoundError \<and>
   fst (resolve_load_version ex_remote
          (snd (resolve_load_version ex_remote
                  (ex_world ((ex_dataset None ''orders.csv'' False False)\<lparr>azureml_dataset := ''ghost''\<rparr>)))))
     = Inl DataSetNotFoundError \<and>
   calls (snd (resolve_load_version ex_remote
                 (snd (resolve_load_version ex_remote
                         (ex_world ((ex_dataset None ''orders.csv'' False False)\<lparr>azureml_dataset := ''ghost''\<rparr>))))))
     = [GetLatest ''ghost'', GetLatest ''ghost'']"
  by (simp add: resolve_load_version_def fetch_latest_load_version_def get_latest_version_def
      ex_world_def ex_dataset_def ex_remote_def Let_def)

section \<open>The local path\<close>

text \<open>
  C1, as amended. Let the inner file path be relative. In a local run in which the
  version resolves to \<open>v\<close>, and with a relative asset name and a relative \<open>v\<close>, the
  computed path has the root of the folder root and the segments of the folder root, then
  those of the asset name, then those of \<open>v\<close>, then those of the inner file path; a
  version that is one plain segment is exactly one segment of the path. In a remote run
  the path has the segments of the folder root and then those of the inner file path, and
  no version is resolved.
\<close>

theorem path_segments:
  assumes "dataset_config (ds w) (filepath_arg (ds w)) = Some fp" and "relative fp"
  shows "(local_run (ds w) \<and> resolve_load_version rm w = (Inr v, w') \<and>
          relative (azureml_dataset (ds w)) \<and> relative v \<longrightarrow>
            path rm w =
              (Inr \<lparr>root = root (mkPath (folder (ds w))),
                    names = names (mkPath (folder (ds w))) @ names (mkPath (azureml_dataset (ds w)))
                              @ names (mkPath v) @ names (mkPath fp)\<rparr>, w') \<and>
            (CHR ''/'' \<notin> set v \<and> v \<noteq> [] \<and> v \<noteq> ''.'' \<longrightarrow> names (mkPath v) = [v])) \<and>
         (\<not> local_run (ds w) \<longrightarrow>
            path rm w =
              (Inr \<lparr>root = root (mkPath (folder (ds w))),
                    names = names (mkPath (folder (ds w))) @ names (mkPath fp)\<rparr>, w))"
proof (intro conjI impI)
  assume a: "local_run (ds w) \<and> resolve_load_version rm w = (Inr v, w') \<and>
          relative (azureml_dataset (ds w)) \<and> relative v"
  then have "path rm w = (path_of (ds w) v, w')" by (simp add: path_local)
  with a assms show "path rm w =
              (Inr \<lparr>root = root (mkPath (folder (ds w))),
                    names = names (mkPath (folder (ds w))) @ names (mkPath (azureml_dataset (ds w)))
                              @ names (mkPath v) @ names (mkPath fp)\<rparr>, w')"
    by (simp add: path_of_def joinpath_def relative_def)
next
  assume "CHR ''/'' \<notin> set v \<and> v \<noteq> [] \<and> v \<noteq> ''.''"
  then show "names (mkPath v) = [v]" by (simp add: mkPath_single)
next
  assume r: "\<not> local_run (ds w)"
  then have "path rm w = (path_of (ds w) [], w)" by (rule remote_run_path)
  with r assms show "path rm w =
              (Inr \<lparr>root = root (mkPath (folder (ds w))),
                    names = names (mkPath (folder (ds w))) @ names (mkPath fp)\<rparr>, w)"
    by (simp add: path_of_def joinpath_def relative_def)
qed

text \<open>
  The example of the specification: asset \<^verbatim>\<open>"sales"\<close>, version \<^verbatim>\<open>"3"\<close>, inner file path
  \<^verbatim>\<open>"orders.csv"\<close>, folder root \<^verbatim>\<open>"data"\<close>.
\<close>

theorem path_segments_witness:
  "dataset_config (ds (ex_world (ex_dataset (Some ''3'') ''orders.csv'' False True)))
     (filepath_arg (ds (ex_world (ex_dataset (Some ''3'') ''orders.csv'' False True))))
     = Some ''orders.csv'' \<and>
   relative ''orders.csv'' \<and> relative ''sales'' \<and> relative ''3'' \<and>
   CHR ''/'' \<notin> set ''3'' \<and> ''3'' \<noteq> [] \<and> ''3'' \<noteq> ''.'' \<and> names (mkPath ''3'') = [''3''] \<and>
   local_run (ds (ex_world (ex_dataset (Some ''3'') ''orders.csv'' False True))) \<and>
   resolve_load_version ex_remote (ex_world (ex_dataset (Some ''3'') ''orders.csv'' False True))
     = (Inr ''3'', ex_world (ex_dataset (Some ''3'') ''orders.csv'' False True)) \<and>
   fst (path ex_remote (ex_world (ex_dataset (Some ''3'') ''orders.csv'' False True)))
     = Inr \<lparr>root = [], names = [''data'', ''sales'', ''3'', ''orders.csv'']\<rparr> \<and>
   str \<lparr>root = [], names = [''data'', ''sales'', ''3'', ''orders.csv'']\<rparr>
     = ''data/sales/3/orders.csv'' \<and>
   \<not> local_run (ds (ex_world (ex_dataset (Some ''3'') ''orders.csv'' False False))) \<and>
   fst (path ex_remote (ex_world (ex_dataset (Some ''3'') ''orders.csv'' False False)))
     = Inr \<lparr>root = [], names = [''data'', ''orders.csv'']\<rparr> \<and>
   str \<lparr>root = [], names = [''data'', ''orders.csv'']\<rparr> = ''data/orders.csv''"
proof -
  let ?L = "ex_world (ex_dataset (Some ''3'') ''orders.csv'' False True)"
  let ?R = "ex_world (ex_dataset (Some ''3'') ''orders.csv'' False False)"
  have c: "dataset_config (ds ?L) (filepath_arg (ds ?L)) = Some ''orders.csv''"
    "dataset_config (ds ?R) (filepath_arg (ds ?R)) = Some ''orders.csv''"
    by (simp_all add: ex_world_def ex_dataset_def)
  have rel: "relative ''orders.csv''" "relative ''sales''" "relative ''3''"
    by (simp_all add: relative_def mkPath_def splitroot_def)
  have res: "resolve_load_version ex_remote ?L = (Inr ''3'', ?L)"
    by (simp add: resolve_load_version_def ex_world_def ex_dataset_def)
  have f: "local_run (ds ?L)" "\<not> local_run (ds ?R)"
    "folder (ds ?L) = ''data''" "folder (ds ?R) = ''data''"
    "azureml_dataset (ds ?L) = ''sales''"
    by (simp_all add: ex_world_def ex_dataset_def)
  have m: "mkPath ''data'' = \<lparr>root = [], names = [''data'']\<rparr>"
    "mkPath ''sales'' = \<lparr>root = [], names = [''sales'']\<rparr>"
    "mkPath ''3'' = \<lparr>root = [], names = [''3'']\<rparr>"
    "mkPath ''orders.csv'' = \<lparr>root = [], names = [''orders.csv'']\<rparr>"
    by (simp_all add: mkPath_def splitroot_def)
  have s: "str \<lparr>root = [], names = [''data'', ''sales'', ''3'', ''orders.csv'']\<rparr>
             = ''data/sales/3/orders.csv''"
    "str \<lparr>root = [], names = [''data'', ''orders.csv'']\<rparr> = ''data/orders.csv''"
    by (simp_all add: str_def)
  from path_segments [OF c(1) rel(1), of ex_remote "''3''" ?L]
       path_segments [OF c(2) rel(1), of ex_remote "''3''" ?R]
  show ?thesis
    using c rel res f s by (simp add: m)
qed

text \<open>
  The claim as written fails for an absolute inner file path: the join discards what
  stands to the left of it, so the local path is the inner file path alone and holds no
  version segment.
\<close>

theorem path_absolute_inner_counterexample:
  "fst (path ex_remote (ex_world (ex_dataset (Some ''3'') ''/orders.csv'' False True)))
     = Inr (mkPath ''/orders.csv'') \<and>
   names (mkPath ''/orders.csv'') = [''orders.csv''] \<and>
   str (mkPath ''/orders.csv'') = ''/orders.csv'' \<and>
   fst (path ex_remote (ex_world (ex_dataset (Some ''3'') ''/orders.csv'' False True)))
     \<noteq> Inr (mkPath ''data/sales/3/orders.csv'')"
  by (simp add: path_def resolve_load_version_def ex_world_def ex_dataset_def path_eval)

section \<open>The download target\<close>




section \<open>Loading without download\<close>

text \<open>
  C3, as amended. With download disabled, \<open>load\<close> fetches no asset, lists nothing and
  downloads nothing. It records no remote call at all in a remote run, with an explicit
  version, or with the load slot filled; in a local run with no explicit version and an
  empty load slot it records exactly one lookup of the latest version, which the path
  needs. No file is transferred. Whenever the path is computed, the result is the inner
  dataset's load on the inner configuration with the computed path in it, unchanged.
\<close>

theorem load_without_download:
  assumes "\<not> download (ds w)"
  shows "calls (snd (load inner rm w)) =
           calls w @ (if local_run (ds w) \<and> version (ds w) = None \<and>
                         version_cache (ds w) ''load'' = None
                      then [GetLatest (azureml_dataset (ds w))] else []) \<and>
         transfers (snd (load inner rm w)) = transfers w \<and>
         (path rm w = (Inr p, w') \<longrightarrow>
            load inner rm w =
              (Inr (inner ((dataset_config (ds w))(filepath_arg (ds w) \<mapsto> str p))), w'))"
proof (intro conjI impI)
  show "calls (snd (load inner rm w)) =
           calls w @ (if local_run (ds w) \<and> version (ds w) = None \<and>
                         version_cache (ds w) ''load'' = None
                      then [GetLatest (azureml_dataset (ds w))] else [])"
    by (simp only: snd_load_no_download [OF assms] path_calls)
  show "transfers (snd (load inner rm w)) = transfers w"
    by (simp only: snd_load_no_download [OF assms] path_transfers)
next
  assume p: "path rm w = (Inr p, w')"
  from path_ds [of rm w] p
  have eq: "ds w' = (ds w)\<lparr>version_cache := version_cache (ds w')\<rparr>" by simp
  have f: "dataset_config (ds w') = dataset_config (ds w)"
    "filepath_arg (ds w') = filepath_arg (ds w)"
    by (subst eq, simp)+
  from p show "load inner rm w =
              (Inr (inner ((dataset_config (ds w))(filepath_arg (ds w) \<mapsto> str p))), w')"
    by (simp add: load_no_download [OF assms] f)
qed

theorem load_without_download_witness:
  "\<not> download (ds (ex_world (ex_dataset (Some ''3'') ''orders.csv'' False True))) \<and>
   path ex_remote (ex_world (ex_dataset (Some ''3'') ''orders.csv'' False True))
     = (Inr \<lparr>root = [], names = [''data'', ''sales'', ''3'', ''orders.csv'']\<rparr>,
        ex_world (ex_dataset (Some ''3'') ''orders.csv'' False True)) \<and>
   calls (snd (load ex_inner ex_remote (ex_world (ex_dataset (Some ''3'') ''orders.csv'' False True))))
     = [] \<and>
   load ex_inner ex_remote (ex_world (ex_dataset (Some ''3'') ''orders.csv'' False True))
     = (Inr (Some ''data/sales/3/orders.csv''),
        ex_world (ex_dataset (Some ''3'') ''orders.csv'' False True))"
proof -
  let ?W = "ex_world (ex_dataset (Some ''3'') ''orders.csv'' False True)"
  have nd: "\<not> download (ds ?W)" by (simp add: ex_eval)
  have pa: "path ex_remote ?W
              = (Inr \<lparr>root = [], names = [''data'', ''sales'', ''3'', ''orders.csv'']\<rparr>, ?W)"
    by (simp add: path_def resolve_load_version_def ex_world_def ex_dataset_def path_eval)
  have f: "calls ?W = []" "version (ds ?W) = Some ''3''"
    "((dataset_config (ds ?W))(filepath_arg (ds ?W) \<mapsto> ''data/sales/3/orders.csv'')) ''filepath''
       = Some ''data/sales/3/orders.csv''"
    "str \<lparr>root = [], names = [''data'', ''sales'', ''3'', ''orders.csv'']\<rparr>
       = ''data/sales/3/orders.csv''"
    by (simp_all add: ex_eval str_def)
  from load_without_download [OF nd, of ex_inner ex_remote
         "\<lparr>root = [], names = [''data'', ''sales'', ''3'', ''orders.csv'']\<rparr>" ?W]
  show ?thesis
    using nd pa f by (simp add: ex_inner_def)
qed

text \<open>
  The claim as written fails in a local run without an explicit version: computing the
  path resolves the version, and with an empty load slot that is a remote lookup.
\<close>

theorem load_without_download_lookup_counterexample:
  "\<not> download (ds (ex_world (ex_dataset None ''orders.csv'' False True))) \<and>
   calls (ex_world (ex_dataset None ''orders.csv'' False True)) = [] \<and>
   calls (snd (load ex_inner ex_remote (ex_world (ex_dataset None ''orders.csv'' False True))))
     = [GetLatest ''sales'']"
  by (simp add: load_def construct_dataset_def path_def resolve_load_version_def
      fetch_latest_load_version_def get_latest_version_def ex_world_def ex_dataset_def
      ex_remote_def Let_def)

section \<open>The two not-found errors\<close>

text \<open>
  C6. With download enabled, when the version resolves and the store has no asset of
  that name and version, \<open>load\<close> fails with \<open>VersionNotFoundError\<close>. And
  \<open>load\<close> fails with \<open>DataSetNotFoundError\<close> only when no explicit version is
  set, the load slot is empty and the store does not know the asset by name: the error
  comes from the lookup of the latest version alone.
\<close>

theorem load_not_found_errors:
  "(download (ds w) \<and> resolve_load_version rm w = (Inr v, w') \<and>
    data_get rm (azureml_dataset (ds w)) v = None
      \<longrightarrow> fst (load inner rm w) = Inl VersionNotFoundError) \<and>
   (fst (load inner rm w) = Inl DataSetNotFoundError
      \<longrightarrow> version (ds w) = None \<and> version_cache (ds w) ''load'' = None \<and>
          data_get_latest rm (azureml_dataset (ds w)) = None)"
proof (rule conjI; rule impI)
  assume a: "download (ds w) \<and> resolve_load_version rm w = (Inr v, w') \<and>
    data_get rm (azureml_dataset (ds w)) v = None"
  then have r: "resolve_load_version rm w = (Inr v, w')" and d: "download (ds w)" by simp_all
  from resolve_Inr [OF r] have s: "settled w' v"
    and eq: "ds w' = (ds w)\<lparr>version_cache := version_cache (ds w')\<rparr>" by simp_all
  have n: "azureml_dataset (ds w') = azureml_dataset (ds w)" "download (ds w')"
    by (subst eq, simp add: d)+
  from a n have "download_plan rm (ds w') v
      = (Inl VersionNotFoundError, [GetAsset (azureml_dataset (ds w)) v])"
    by (simp add: download_plan_def)
  with load_settled [OF s n(2), of inner rm] load_resolved [OF d r, of inner]
  show "fst (load inner rm w) = Inl VersionNotFoundError" by simp
next
  assume a: "fst (load inner rm w) = Inl DataSetNotFoundError"
  show "version (ds w) = None \<and> version_cache (ds w) ''load'' = None \<and>
          data_get_latest rm (azureml_dataset (ds w)) = None"
  proof (cases "resolve_load_version rm w")
    case (Pair r w1)
    show ?thesis
    proof (cases r)
      case (Inl e)
      with Pair resolve_Inl [of rm w e w1] show ?thesis by simp
    next
      case (Inr v)
      with Pair have r: "resolve_load_version rm w = (Inr v, w1)" by simp
      from resolve_Inr [OF r] have s: "settled w1 v"
        and eq: "ds w1 = (ds w)\<lparr>version_cache := version_cache (ds w1)\<rparr>" by simp_all
      have False
      proof (cases "download (ds w)")
        case True
        have d1: "download (ds w1)" by (subst eq) (simp add: True)
        have "fst (load inner rm w1) \<noteq> Inl DataSetNotFoundError"
          by (auto simp: load_settled [OF s d1] download_plan_def path_on_azure_def path_of_def
              Let_def split: option.splits sum.splits if_splits)
        with a load_resolved [OF True r, of inner] show False by simp
      next
        case False
        have "fst (path rm w) \<noteq> Inl DataSetNotFoundError"
          using r by (auto simp: path_def split: option.splits)
        with a False show False
          by (auto simp: load_no_download split: prod.splits sum.splits)
      qed
      then show ?thesis ..
    qed
  qed
qed

theorem load_not_found_errors_witness:
  "download (ds (ex_world (ex_dataset (Some ''9'') ''orders.csv'' True True))) \<and>
   resolve_load_version ex_remote (ex_world (ex_dataset (Some ''9'') ''orders.csv'' True True))
     = (Inr ''9'', ex_world (ex_dataset (Some ''9'') ''orders.csv'' True True)) \<and>
   data_get ex_remote
     (azureml_dataset (ds (ex_world (ex_dataset (Some ''9'') ''orders.csv'' True True)))) ''9''
     = None \<and>
   fst (load ex_inner ex_remote (ex_world (ex_dataset (Some ''9'') ''orders.csv'' True True)))
     = Inl VersionNotFoundError \<and>
   fst (load ex_inner ex_remote
          (ex_world ((ex_dataset None ''orders.csv'' True True)\<lparr>azureml_dataset := ''ghost''\<rparr>)))
     = Inl DataSetNotFoundError \<and>
   data_get_latest ex_remote
     (azureml_dataset
        (ds (ex_world ((ex_dataset None ''orders.csv'' True True)\<lparr>azureml_dataset := ''ghost''\<rparr>))))
     = None"
proof -
  let ?A = "ex_world (ex_dataset (Some ''9'') ''orders.csv'' True True)"
  let ?B = "ex_world ((ex_dataset None ''orders.csv'' True True)\<lparr>azureml_dataset := ''ghost''\<rparr>)"
  have a: "download (ds ?A)"
    "resolve_load_version ex_remote ?A = (Inr ''9'', ?A)"
    "data_get ex_remote (azureml_dataset (ds ?A)) ''9'' = None"
    by (simp_all add: resolve_load_version_def ex_eval)
  have b: "fst (load ex_inner ex_remote ?B) = Inl DataSetNotFoundError"
    by (simp add: run_eval ex_eval)
  from load_not_found_errors [of ?A ex_remote "''9''" ?A ex_inner]
       load_not_found_errors [of ?B ex_remote "''9''" ?B ex_inner]
  show ?thesis
    using a b by simp
qed

section \<open>The remote path that is listed and downloaded\<close>

text \<open>
  C7, as amended. With download enabled, a version that resolves, an asset that is found
  and a download target \<open>d\<close>, the calls of \<open>load\<close> after the resolution are the asset
  lookup, the opening of the file system, one listing and one download into \<open>d\<close>, in the
  mode \<^verbatim>\<open>"APPEND"\<close>, for each object listed. The path listed is the asset's own storage
  path for a single-file asset, and for a folder asset the join of the asset's storage root
  with the inner file path. When the inner file path is relative and has at least one
  segment, that join has the segments of the storage root followed by those of the inner
  file path and is not the storage root itself.
\<close>

theorem load_listed_path:
  assumes "download (ds w)"
    and "resolve_load_version rm w = (Inr v, w1)"
    and "data_get rm (azureml_dataset (ds w)) v = Some a"
    and "dataset_config (ds w) (filepath_arg (ds w)) = Some fp"
    and "fst (download_path rm w1) = Inr d"
  shows "(asset_type a = ''uri_file'' \<longrightarrow>
            calls (snd (load inner rm w)) =
              calls w1 @ [GetAsset (azureml_dataset (ds w)) v, OpenFs (asset_path a),
                          Ls (infer_storage_options rm (asset_path a))]
              @ map (\<lambda>f. Download f d ''APPEND'')
                  (fs_ls rm (asset_path a) (infer_storage_options rm (asset_path a)))) \<and>
         (asset_type a = ''uri_folder'' \<longrightarrow>
            calls (snd (load inner rm w)) =
              calls w1 @ [GetAsset (azureml_dataset (ds w)) v, OpenFs (asset_path a),
                          Ls (str (joinpath (mkPath (infer_storage_options rm (asset_path a)))
                                            (mkPath fp)))]
              @ map (\<lambda>f. Download f d ''APPEND'')
                  (fs_ls rm (asset_path a)
                     (str (joinpath (mkPath (infer_storage_options rm (asset_path a)))
                                    (mkPath fp))))) \<and>
         (relative fp \<and> names (mkPath fp) \<noteq> [] \<longrightarrow>
            names (joinpath (mkPath (infer_storage_options rm (asset_path a))) (mkPath fp))
              = names (mkPath (infer_storage_options rm (asset_path a))) @ names (mkPath fp) \<and>
            joinpath (mkPath (infer_storage_options rm (asset_path a))) (mkPath fp)
              \<noteq> mkPath (infer_storage_options rm (asset_path a)))"
proof -
  from resolve_Inr [OF assms(2)] have s: "settled w1 v"
    and eq: "ds w1 = (ds w)\<lparr>version_cache := version_cache (ds w1)\<rparr>" by simp_all
  have n: "azureml_dataset (ds w1) = azureml_dataset (ds w)" "download (ds w1)"
    "dataset_config (ds w1) = dataset_config (ds w)" "filepath_arg (ds w1) = filepath_arg (ds w)"
    by (subst eq, simp add: assms(1))+
  from settled_download_path [OF s assms(5)] obtain p
    where p: "path_of (ds w1) v = Inr p" and d: "d = target_of p" by blast
  have run: "calls (snd (load inner rm w)) = calls w1 @ cs @ map (\<lambda>f. Download f d ''APPEND'') fs"
    if "download_plan rm (ds w1) v = (Inr fs, cs)" for fs cs
    using load_settled [OF s n(2), of inner rm] load_resolved [OF assms(1,2), of inner] that p d
    by (simp add: download_each_calls)
  have single_case: "asset_type a = ''uri_file'' \<longrightarrow>
            calls (snd (load inner rm w)) =
              calls w1 @ [GetAsset (azureml_dataset (ds w)) v, OpenFs (asset_path a),
                          Ls (infer_storage_options rm (asset_path a))]
              @ map (\<lambda>f. Download f d ''APPEND'')
                  (fs_ls rm (asset_path a) (infer_storage_options rm (asset_path a)))"
  proof
    assume "asset_type a = ''uri_file''"
    with assms(3) n have "download_plan rm (ds w1) v =
        (Inr (fs_ls rm (asset_path a) (infer_storage_options rm (asset_path a))),
         [GetAsset (azureml_dataset (ds w)) v, OpenFs (asset_path a),
          Ls (infer_storage_options rm (asset_path a))])"
      by (simp add: download_plan_def path_on_azure_def)
    from run [OF this] show "calls (snd (load inner rm w)) =
              calls w1 @ [GetAsset (azureml_dataset (ds w)) v, OpenFs (asset_path a),
                          Ls (infer_storage_options rm (asset_path a))]
              @ map (\<lambda>f. Download f d ''APPEND'')
                  (fs_ls rm (asset_path a) (infer_storage_options rm (asset_path a)))" .
  qed
  let ?P = "str (joinpath (mkPath (infer_storage_options rm (asset_path a))) (mkPath fp))"
  have folder_case: "asset_type a = ''uri_folder'' \<longrightarrow>
            calls (snd (load inner rm w)) =
              calls w1 @ [GetAsset (azureml_dataset (ds w)) v, OpenFs (asset_path a), Ls ?P]
              @ map (\<lambda>f. Download f d ''APPEND'') (fs_ls rm (asset_path a) ?P)"
  proof
    assume "asset_type a = ''uri_folder''"
    with assms(3,4) n have "download_plan rm (ds w1) v =
        (Inr (fs_ls rm (asset_path a) ?P),
         [GetAsset (azureml_dataset (ds w)) v, OpenFs (asset_path a), Ls ?P])"
      by (simp add: download_plan_def path_on_azure_def Let_def)
    from run [OF this] show "calls (snd (load inner rm w)) =
              calls w1 @ [GetAsset (azureml_dataset (ds w)) v, OpenFs (asset_path a), Ls ?P]
              @ map (\<lambda>f. Download f d ''APPEND'') (fs_ls rm (asset_path a) ?P)" .
  qed
  have below: "relative fp \<and> names (mkPath fp) \<noteq> [] \<longrightarrow>
            names (joinpath (mkPath (infer_storage_options rm (asset_path a))) (mkPath fp))
              = names (mkPath (infer_storage_options rm (asset_path a))) @ names (mkPath fp) \<and>
            joinpath (mkPath (infer_storage_options rm (asset_path a))) (mkPath fp)
              \<noteq> mkPath (infer_storage_options rm (asset_path a))"
  proof
    assume a: "relative fp \<and> names (mkPath fp) \<noteq> []"
    then have j: "names (joinpath (mkPath (infer_storage_options rm (asset_path a))) (mkPath fp))
              = names (mkPath (infer_storage_options rm (asset_path a))) @ names (mkPath fp)"
      by (simp add: joinpath_def relative_def)
    have "joinpath (mkPath (infer_storage_options rm (asset_path a))) (mkPath fp)
              \<noteq> mkPath (infer_storage_options rm (asset_path a))"
    proof
      assume "joinpath (mkPath (infer_storage_options rm (asset_path a))) (mkPath fp)
              = mkPath (infer_storage_options rm (asset_path a))"
      then have "names (joinpath (mkPath (infer_storage_options rm (asset_path a))) (mkPath fp))
              = names (mkPath (infer_storage_options rm (asset_path a)))" by simp
      with j a show False by simp
    qed
    with j show "names (joinpath (mkPath (infer_storage_options rm (asset_path a))) (mkPath fp))
              = names (mkPath (infer_storage_options rm (asset_path a))) @ names (mkPath fp) \<and>
            joinpath (mkPath (infer_storage_options rm (asset_path a))) (mkPath fp)
              \<noteq> mkPath (infer_storage_options rm (asset_path a))" by simp
  qed
  from single_case folder_case below show ?thesis by (intro conjI)
qed

theorem load_listed_path_witness:
  "download (ds (ex_world (ex_dataset (Some ''3'') ''orders.csv'' True True))) \<and>
   resolve_load_version ex_remote (ex_world (ex_dataset (Some ''3'') ''orders.csv'' True True))
     = (Inr ''3'', ex_world (ex_dataset (Some ''3'') ''orders.csv'' True True)) \<and>
   fst (download_path ex_remote (ex_world (ex_dataset (Some ''3'') ''orders.csv'' True True)))
     = Inr ''data/sales/3'' \<and>
   relative ''orders.csv'' \<and> names (mkPath ''orders.csv'') \<noteq> [] \<and>
   calls (snd (load ex_inner ex_remote
                 (ex_world (ex_dataset (Some ''3'') ''orders.csv'' True True))))
     = [GetAsset ''sales'' ''3'', OpenFs ''azureml://sales/3'', Ls ''store/sales/orders.csv'',
        Download ''store/sales/orders.csv'' ''data/sales/3'' ''APPEND''] \<and>
   calls (snd (load ex_inner (ex_remote_of_type ''uri_file'')
                 (ex_world (ex_dataset (Some ''3'') ''orders.csv'' True True))))
     = [GetAsset ''sales'' ''3'', OpenFs ''azureml://sales/3'', Ls ''store/sales'',
        Download ''store/sales'' ''data/sales/3'' ''APPEND''] \<and>
   joinpath (mkPath ''store/sales'') (mkPath ''orders.csv'') \<noteq> mkPath ''store/sales''"
proof -
  let ?W = "ex_world (ex_dataset (Some ''3'') ''orders.csv'' True True)"
  let ?a = "\<lparr>asset_type = ''uri_folder'', asset_path = ''azureml://sales/3''\<rparr>"
  let ?b = "\<lparr>asset_type = ''uri_file'', asset_path = ''azureml://sales/3''\<rparr>"
  have h: "download (ds ?W)"
    "resolve_load_version ex_remote ?W = (Inr ''3'', ?W)"
    "data_get ex_remote (azureml_dataset (ds ?W)) ''3'' = Some ?a"
    "dataset_config (ds ?W) (filepath_arg (ds ?W)) = Some ''orders.csv''"
    by (simp_all add: resolve_load_version_def ex_eval)
  have h': "resolve_load_version (ex_remote_of_type ''uri_file'') ?W = (Inr ''3'', ?W)"
    "data_get (ex_remote_of_type ''uri_file'') (azureml_dataset (ds ?W)) ''3'' = Some ?b"
    by (simp_all add: resolve_load_version_def ex_eval)
  have d: "fst (download_path ex_remote ?W) = Inr ''data/sales/3''"
    "fst (download_path (ex_remote_of_type ''uri_file'') ?W) = Inr ''data/sales/3''"
    by (simp_all add: download_path_def path_def resolve_load_version_def ex_world_def
        ex_dataset_def path_eval)
  have r: "relative ''orders.csv''" "names (mkPath ''orders.csv'') \<noteq> []"
    by (simp_all add: relative_def mkPath_def splitroot_def)
  have e: "infer_storage_options ex_remote ''azureml://sales/3'' = ''store/sales''"
    "infer_storage_options (ex_remote_of_type ''uri_file'') ''azureml://sales/3'' = ''store/sales''"
    "fs_ls ex_remote ''azureml://sales/3'' = (\<lambda>p. [p])"
    "fs_ls (ex_remote_of_type ''uri_file'') ''azureml://sales/3'' = (\<lambda>p. [p])"
    "azureml_dataset (ds ?W) = ''sales''" "calls ?W = []"
    "str (joinpath (mkPath ''store/sales'') (mkPath ''orders.csv'')) = ''store/sales/orders.csv''"
    by (simp_all add: ex_eval path_eval)
  from load_listed_path [OF h d(1), of ex_inner]
       load_listed_path [OF h(1) h'(1) h'(2) h(4) d(2), of ex_inner]
  show ?thesis
    using h d r by (simp add: e)
qed

text \<open>
  The claim as written fails for an inner file path without segments: with \<^verbatim>\<open>"."\<close>
  the join is the storage root, and the whole folder asset is listed and downloaded.
\<close>

theorem load_listed_path_whole_folder_counterexample:
  "data_get ex_remote ''sales'' ''3''
     = Some \<lparr>asset_type = ''uri_folder'', asset_path = ''azureml://sales/3''\<rparr> \<and>
   infer_storage_options ex_remote ''azureml://sales/3'' = ''store/sales'' \<and>
   calls (snd (load ex_inner ex_remote (ex_world (ex_dataset (Some ''3'') ''.'' True False))))
     = [GetAsset ''sales'' ''3'', OpenFs ''azureml://sales/3'', Ls ''store/sales'',
        Download ''store/sales'' ''data'' ''APPEND'']"
  by (simp add: run_eval ex_eval path_eval)

section \<open>An asset of another type\<close>

text \<open>
  C10. With download enabled, a version that resolves and an asset whose type is neither
  \<^verbatim>\<open>"uri_file"\<close> nor \<^verbatim>\<open>"uri_folder"\<close>, \<open>load\<close> fails with \<open>UnboundLocalError\<close>
  after the asset lookup and the opening of the file system: nothing is listed, nothing is
  downloaded, no file is transferred.
\<close>

theorem load_unknown_asset_type:
  assumes "download (ds w)"
    and "resolve_load_version rm w = (Inr v, w')"
    and "data_get rm (azureml_dataset (ds w)) v = Some a"
    and "asset_type a \<noteq> ''uri_file''" and "asset_type a \<noteq> ''uri_folder''"
  shows "load inner rm w =
           (Inl UnboundLocalError,
            w'\<lparr>calls := calls w' @ [GetAsset (azureml_dataset (ds w)) v, OpenFs (asset_path a)]\<rparr>) \<and>
         transfers (snd (load inner rm w)) = transfers w \<and>
         local_files (snd (load inner rm w)) = local_files w"
proof -
  from resolve_Inr [OF assms(2)] have s: "settled w' v"
    and fr: "local_files w' = local_files w" "transfers w' = transfers w"
    and eq: "ds w' = (ds w)\<lparr>version_cache := version_cache (ds w')\<rparr>" by simp_all
  have n: "azureml_dataset (ds w') = azureml_dataset (ds w)" "download (ds w')"
    by (subst eq, simp add: assms(1))+
  from assms(3-5) n have "download_plan rm (ds w') v
      = (Inl UnboundLocalError, [GetAsset (azureml_dataset (ds w)) v, OpenFs (asset_path a)])"
    by (simp add: download_plan_def path_on_azure_def)
  with load_settled [OF s n(2), of inner rm] load_resolved [OF assms(1,2), of inner]
  have "load inner rm w =
           (Inl UnboundLocalError,
            w'\<lparr>calls := calls w' @ [GetAsset (azureml_dataset (ds w)) v, OpenFs (asset_path a)]\<rparr>)"
    by simp
  with fr show ?thesis by simp
qed

theorem load_unknown_asset_type_witness:
  "download (ds (ex_world (ex_dataset (Some ''3'') ''orders.csv'' True True))) \<and>
   resolve_load_version (ex_remote_of_type ''mltable'')
       (ex_world (ex_dataset (Some ''3'') ''orders.csv'' True True))
     = (Inr ''3'', ex_world (ex_dataset (Some ''3'') ''orders.csv'' True True)) \<and>
   data_get (ex_remote_of_type ''mltable'')
       (azureml_dataset (ds (ex_world (ex_dataset (Some ''3'') ''orders.csv'' True True)))) ''3''
     = Some \<lparr>asset_type = ''mltable'', asset_path = ''azureml://sales/3''\<rparr> \<and>
   ''mltable'' \<noteq> ''uri_file'' \<and> ''mltable'' \<noteq> ''uri_folder'' \<and>
   fst (load ex_inner (ex_remote_of_type ''mltable'')
          (ex_world (ex_dataset (Some ''3'') ''orders.csv'' True True)))
     = Inl UnboundLocalError \<and>
   calls (snd (load ex_inner (ex_remote_of_type ''mltable'')
                 (ex_world (ex_dataset (Some ''3'') ''orders.csv'' True True))))
     = [GetAsset ''sales'' ''3'', OpenFs ''azureml://sales/3''] \<and>
   transfers (snd (load ex_inner (ex_remote_of_type ''mltable'')
                     (ex_world (ex_dataset (Some ''3'') ''orders.csv'' True True))))
     = []"
proof -
  let ?W = "ex_world (ex_dataset (Some ''3'') ''orders.csv'' True True)"
  let ?a = "\<lparr>asset_type = ''mltable'', asset_path = ''azureml://sales/3''\<rparr>"
  have h: "download (ds ?W)"
    "resolve_load_version (ex_remote_of_type ''mltable'') ?W = (Inr ''3'', ?W)"
    "data_get (ex_remote_of_type ''mltable'') (azureml_dataset (ds ?W)) ''3'' = Some ?a"
    by (simp_all add: resolve_load_version_def ex_eval)
  have t: "asset_type ?a \<noteq> ''uri_file''" "asset_type ?a \<noteq> ''uri_folder''"
    by simp_all
  have f: "azureml_dataset (ds ?W) = ''sales''" "calls ?W = []" "transfers ?W = []"
    by (simp_all add: ex_eval)
  from load_unknown_asset_type [OF h t, of ex_inner]
  show ?thesis
    using h f by simp
qed

section \<open>Downloads are additive and idempotent\<close>

text \<open>
  C8. Whatever the state, \<open>load\<close> only adds to the record of remote calls, and every
  download among the calls it adds is in the mode \<^verbatim>\<open>"APPEND"\<close>, which skips a file that
  is there. So no local file goes, every file \<open>load\<close> transfers was absent before, and a
  second \<open>load\<close> right after the first transfers nothing: the record of transfers
  after the second call is the record after the first.
\<close>

theorem load_download_idempotent:
  "calls (snd (load inner rm w)) = calls w @ new_calls w (snd (load inner rm w)) \<and>
   append_only (new_calls w (snd (load inner rm w))) \<and>
   set (local_files w) \<subseteq> set (local_files (snd (load inner rm w))) \<and>
   transfers (snd (load inner rm w)) = transfers w @ new_transfers w (snd (load inner rm w)) \<and>
   set (new_transfers w (snd (load inner rm w))) \<inter> set (local_files w) = {} \<and>
   transfers (snd (load inner rm (snd (load inner rm w)))) = transfers (snd (load inner rm w))"
  using extends_load [of w inner rm] load_twice_transfers [of inner rm w]
  by (simp add: extends_def)

theorem load_download_idempotent_witness:
  "new_calls (ex_world (ex_dataset None ''orders.csv'' True True))
     (snd (load ex_inner ex_remote (ex_world (ex_dataset None ''orders.csv'' True True))))
     = [GetLatest ''sales'', GetAsset ''sales'' ''3'', OpenFs ''azureml://sales/3'',
        Ls ''store/sales/orders.csv'',
        Download ''store/sales/orders.csv'' ''data/sales/3'' ''APPEND''] \<and>
   append_only [GetLatest ''sales'', GetAsset ''sales'' ''3'', OpenFs ''azureml://sales/3'',
        Ls ''store/sales/orders.csv'',
        Download ''store/sales/orders.csv'' ''data/sales/3'' ''APPEND''] \<and>
   transfers (snd (load ex_inner ex_remote (ex_world (ex_dataset None ''orders.csv'' True True))))
     = [(''data/sales/3'', ''store/sales/orders.csv'')] \<and>
   transfers (snd (load ex_inner ex_remote
                (snd (load ex_inner ex_remote (ex_world (ex_dataset None ''orders.csv'' True True))))))
     = [(''data/sales/3'', ''store/sales/orders.csv'')] \<and>
   calls (snd (load ex_inner ex_remote
                (snd (load ex_inner ex_remote (ex_world (ex_dataset None ''orders.csv'' True True))))))
     = [GetLatest ''sales'', GetAsset ''sales'' ''3'', OpenFs ''azureml://sales/3'',
        Ls ''store/sales/orders.csv'',
        Download ''store/sales/orders.csv'' ''data/sales/3'' ''APPEND'',
        GetAsset ''sales'' ''3'', OpenFs ''azureml://sales/3'',
        Ls ''store/sales/orders.csv'',
        Download ''store/sales/orders.csv'' ''data/sales/3'' ''APPEND'']"
proof -
  let ?W = "ex_world (ex_dataset None ''orders.csv'' True True)"
  let ?W1 = "snd (load ex_inner ex_remote ?W)"
  have c0: "calls ?W = []" by (simp add: ex_eval)
  have c1: "calls ?W1
     = [GetLatest ''sales'', GetAsset ''sales'' ''3'', OpenFs ''azureml://sales/3'',
        Ls ''store/sales/orders.csv'',
        Download ''store/sales/orders.csv'' ''data/sales/3'' ''APPEND'']"
    by (simp add: run_eval ex_eval path_eval)
  have t1: "transfers ?W1 = [(''data/sales/3'', ''store/sales/orders.csv'')]"
    by (simp add: run_eval ex_eval path_eval)
  have c2: "calls (snd (load ex_inner ex_remote ?W1))
     = [GetLatest ''sales'', GetAsset ''sales'' ''3'', OpenFs ''azureml://sales/3'',
        Ls ''store/sales/orders.csv'',
        Download ''store/sales/orders.csv'' ''data/sales/3'' ''APPEND'',
        GetAsset ''sales'' ''3'', OpenFs ''azureml://sales/3'',
        Ls ''store/sales/orders.csv'',
        Download ''store/sales/orders.csv'' ''data/sales/3'' ''APPEND'']"
    by (simp add: run_eval ex_eval path_eval)
  from load_download_idempotent [of ex_inner ex_remote ?W]
  show ?thesis
    by (simp add: c0 c1 t1 c2)
qed

end
